theory Spec2Isabelle
  imports Main "HOL-Library.Word"
begin

unbundle bit_operations_syntax

section \<open>Shared vocabulary\<close>

text \<open>
  A Go \<^verbatim>\<open>error\<close> value. \<^verbatim>\<open>nil\<close> is \<open>None\<close> of \<open>error option\<close>. An error that
  comes from outside the repository (the operating system, a library) is \<open>Ext\<close> with its
  message; an error built by \<^verbatim>\<open>fmt.Errorf(format, args...)\<close> keeps the format string
  and the arguments, so that what a message names can be read off its arguments.
\<close>

datatype error = Ext string | Errorf string "arg list"
  and arg = ArgInt int | ArgStr string | ArgErr error

text \<open>The errors a message was built from: the error arguments of its \<^verbatim>\<open>Errorf\<close>.\<close>

fun argErrors :: "arg list \<Rightarrow> error list" where
  "argErrors [] = []"
| "argErrors (ArgErr x # rest) = x # argErrors rest"
| "argErrors (a # rest) = argErrors rest"

fun causes :: "error \<Rightarrow> error list" where
  "causes (Ext m) = []"
| "causes (Errorf f args) = argErrors args"


type_synonym bytes = "8 word list"

section \<open>net/net.go: the connection marker\<close>

text \<open>
  \<^verbatim>\<open>net.IP\<close> is a byte slice: 4 bytes for the short form of an IPv4 address, 16 bytes
  for an IPv6 address and for the IPv4-mapped form \<^verbatim>\<open>::ffff:a.b.c.d\<close> of an IPv4 address
  (the form \<^verbatim>\<open>net.ParseIP\<close> and dual-stack sockets produce).
\<close>

type_synonym IP = "8 word list"

datatype panic = IndexOutOfRange | SliceBoundsOutOfRange | NilPointerDereference

text \<open>\<^verbatim>\<open>IP.To4\<close> of the standard library; \<open>None\<close> is the nil slice.\<close>

definition To4 :: "IP \<Rightarrow> IP option" where
  "To4 ip =
     (if length ip = 4 then Some ip
      else if length ip = 16 \<and> list_all (\<lambda>b. b = 0) (take 10 ip)
              \<and> ip ! 10 = 0xff \<and> ip ! 11 = 0xff
        then Some (drop 12 ip)
      else None)"

text \<open>
  \<^verbatim>\<open>binary.BigEndian.Uint32(b)\<close>: bounds check on \<^verbatim>\<open>b[3]\<close>, then
  \<^verbatim>\<open>uint32(b[3]) | uint32(b[2])<<8 | uint32(b[1])<<16 | uint32(b[0])<<24\<close>.
\<close>

definition BigEndian_Uint32 :: "bytes \<Rightarrow> panic + 32 word" where
  "BigEndian_Uint32 b =
     (if length b < 4 then Inl IndexOutOfRange
      else Inr (ucast (b ! 3) OR push_bit 8 (ucast (b ! 2))
                OR push_bit 16 (ucast (b ! 1)) OR push_bit 24 (ucast (b ! 0))))"

text \<open>
  \<^verbatim>\<open>fnv.New32a()\<close>, \<^verbatim>\<open>Write\<close>, \<^verbatim>\<open>Sum32\<close>: start from the offset basis 2166136261 and,
  for each byte, xor it in and multiply by the prime 16777619, in 32 bits.
\<close>

definition fnv32a :: "bytes \<Rightarrow> 32 word" where
  "fnv32a bs = fold (\<lambda>c hash. (hash XOR ucast c) * 16777619) bs 2166136261"

record Marker =
  mark :: int

text \<open>
  \<^verbatim>\<open>NewMarker\<close>. The IPv4 branch reads \<^verbatim>\<open>clientIP\<close> itself, not \<^verbatim>\<open>clientIP.To4()\<close>.
  \<^verbatim>\<open>clientIP[:6]\<close> panics on a slice shorter than 6 bytes (capacity taken equal to
  length). \<^verbatim>\<open>int\<close> is taken to be 64 bits wide, so \<^verbatim>\<open>int(uint32)\<close> is the unsigned value.
\<close>

definition NewMarker :: "IP \<Rightarrow> panic + Marker" where
  "NewMarker clientIP =
     (if To4 clientIP \<noteq> None then
        (case BigEndian_Uint32 clientIP of
           Inl p \<Rightarrow> Inl p
         | Inr u \<Rightarrow> Inr \<lparr>mark = uint u\<rparr>)
      else
        (if length clientIP < 6 then Inl SliceBoundsOutOfRange
         else
           let top48 = take 6 clientIP;
               hash = fnv32a top48
           in Inr \<lparr>mark = uint hash\<rparr>))"

text \<open>The 16-byte form of the IPv4 address \<open>a.b.c.d\<close>, as \<^verbatim>\<open>net.IPv4(a, b, c, d)\<close> builds it.\<close>

definition IPv4 :: "8 word \<Rightarrow> 8 word \<Rightarrow> 8 word \<Rightarrow> 8 word \<Rightarrow> IP" where
  "IPv4 a b c d = [0, 0, 0, 0, 0, 0, 0, 0, 0, 0, 0xff, 0xff, a, b, c, d]"

section \<open>service/metrics/metrics.go: the counter guard\<close>






section \<open>net/net.go: duplex connections, wrapping and relaying\<close>

subsection \<open>Readers and writers\<close>

text \<open>
  An \<^verbatim>\<open>io.Reader\<close> is a script: the chunks its successive \<^verbatim>\<open>Read\<close> calls deliver and
  the error it returns once they are used up (\<^verbatim>\<open>io.EOF\<close> for a clean end of stream).
  An \<^verbatim>\<open>io.Writer\<close> records the bytes it accepted; \<open>failing = Some (k, e)\<close> makes it
  fail with \<open>e\<close> once \<open>k\<close> more bytes were accepted.
\<close>

definition EOF :: error where
  "EOF = Ext ''EOF''"

definition ErrShortWrite :: error where
  "ErrShortWrite = Ext ''short write''"

record reader =
  pending :: "bytes list"
  ending :: error

record writer =
  accepted :: bytes
  failing :: "(nat \<times> error) option"

definition readerRead :: "reader \<Rightarrow> (bytes \<times> error option) \<times> reader" where
  "readerRead src =
     (case pending src of
        [] \<Rightarrow> (([], Some (ending src)), src)
      | c # cs \<Rightarrow> ((c, None), src\<lparr>pending := cs\<rparr>))"

definition writerWrite :: "writer \<Rightarrow> bytes \<Rightarrow> (nat \<times> error option) \<times> writer" where
  "writerWrite dst b =
     (case failing dst of
        None \<Rightarrow> ((length b, None), dst\<lparr>accepted := accepted dst @ b\<rparr>)
      | Some (k, e) \<Rightarrow>
          if length b \<le> k
          then ((length b, None),
                dst\<lparr>accepted := accepted dst @ b, failing := Some (k - length b, e)\<rparr>)
          else ((k, Some e),
                dst\<lparr>accepted := accepted dst @ take k b, failing := Some (0, e)\<rparr>))"

text \<open>
  \<^verbatim>\<open>io.Copy(dst, src)\<close> of the standard library, as its read-then-write loop: it copies
  until the source reports an error, returns the number of bytes written and the first
  error met, and reports \<^verbatim>\<open>io.EOF\<close> from the source as no error. Byte counts are
  \<^verbatim>\<open>int64\<close> in the source; no stream here comes near \<open>2 ^ 63\<close> bytes, so they are
  integers.
\<close>

function copyBuffer :: "writer \<Rightarrow> reader \<Rightarrow> int \<Rightarrow> (int \<times> error option) \<times> writer \<times> reader" where
  "copyBuffer dst src written =
     (case readerRead src of
        ((buf, er), src') \<Rightarrow>
          if 0 < length buf then
            (case writerWrite dst buf of
               ((nw, ew), dst') \<Rightarrow>
                 if ew \<noteq> None then ((written + int nw, ew), dst', src')
                 else if length buf \<noteq> nw
                   then ((written + int nw, Some ErrShortWrite), dst', src')
                 else if er \<noteq> None
                   then ((written + int nw, if er \<noteq> Some EOF then er else None), dst', src')
                 else copyBuffer dst' src' (written + int nw))
          else if er \<noteq> None
            then ((written, if er \<noteq> Some EOF then er else None), dst, src')
          else copyBuffer dst src' written)"
  by pat_completeness auto
termination
  by (relation "measure (\<lambda>(dst, src, written). length (pending src))")
     (auto simp: readerRead_def split: list.splits)

declare copyBuffer.simps [simp del]

definition io_Copy :: "writer \<Rightarrow> reader \<Rightarrow> (int \<times> error option) \<times> writer \<times> reader" where
  "io_Copy dst src = copyBuffer dst src 0"

subsection \<open>DuplexConn and duplexConnAdaptor\<close>

text \<open>
  A \<^verbatim>\<open>DuplexConn\<close> is either some connection from outside this file (\<open>NetConn\<close>, such
  as a \<^verbatim>\<open>*net.TCPConn\<close>), with its own reading and writing side, or a
  \<^verbatim>\<open>*duplexConnAdaptor\<close> with the embedded \<^verbatim>\<open>DuplexConn\<close> and the fields \<^verbatim>\<open>r\<close> and
  \<^verbatim>\<open>w\<close>. Objects are values here: a method returns the object as the call left it,
  and the reader and the writer of an adaptor are objects of their own, not views of the
  embedded connection.
  The half-close calls a connection received are kept in \<open>halfCloses\<close>, oldest first;
  what the operating system does on a half-close is outside the source and not modelled.
\<close>

datatype closeOp = CloseReadCall | CloseWriteCall

record netConn =
  rd :: reader
  wr :: writer
  halfCloses :: "closeOp list"

datatype duplexConn = NetConn netConn | duplexConnAdaptor duplexConn reader writer

fun Read :: "duplexConn \<Rightarrow> (bytes \<times> error option) \<times> duplexConn" where
  "Read (NetConn c) =
     (case readerRead (rd c) of (res, rd') \<Rightarrow> (res, NetConn (c\<lparr>rd := rd'\<rparr>)))"
| "Read (duplexConnAdaptor conn r w) =
     (case readerRead r of (res, r') \<Rightarrow> (res, duplexConnAdaptor conn r' w))"

fun Write :: "duplexConn \<Rightarrow> bytes \<Rightarrow> (nat \<times> error option) \<times> duplexConn" where
  "Write (NetConn c) b =
     (case writerWrite (wr c) b of (res, wr') \<Rightarrow> (res, NetConn (c\<lparr>wr := wr'\<rparr>)))"
| "Write (duplexConnAdaptor conn r w) b =
     (case writerWrite w b of (res, w') \<Rightarrow> (res, duplexConnAdaptor conn r w'))"

fun CloseRead :: "duplexConn \<Rightarrow> duplexConn" where
  "CloseRead (NetConn c) = NetConn (c\<lparr>halfCloses := halfCloses c @ [CloseReadCall]\<rparr>)"
| "CloseRead (duplexConnAdaptor conn r w) = duplexConnAdaptor (CloseRead conn) r w"

fun CloseWrite :: "duplexConn \<Rightarrow> duplexConn" where
  "CloseWrite (NetConn c) = NetConn (c\<lparr>halfCloses := halfCloses c @ [CloseWriteCall]\<rparr>)"
| "CloseWrite (duplexConnAdaptor conn r w) = duplexConnAdaptor (CloseWrite conn) r w"

text \<open>
  The bulk-copy methods of the adaptor: \<^verbatim>\<open>WriteTo(w)\<close> is \<^verbatim>\<open>io.Copy(w, dc.r)\<close> and
  \<^verbatim>\<open>ReadFrom(r)\<close> is \<^verbatim>\<open>io.Copy(dc.w, r)\<close>. \<open>None\<close>: the method is not one of this
  file; whether a connection from outside has it is left open.
\<close>

fun WriteTo ::
  "duplexConn \<Rightarrow> writer \<Rightarrow> ((int \<times> error option) \<times> duplexConn \<times> writer) option" where
  "WriteTo (duplexConnAdaptor conn r w) dst =
     (case io_Copy dst r of (res, dst', r') \<Rightarrow> Some (res, duplexConnAdaptor conn r' w, dst'))"
| "WriteTo (NetConn c) dst = None"

fun ReadFrom ::
  "duplexConn \<Rightarrow> reader \<Rightarrow> ((int \<times> error option) \<times> duplexConn \<times> reader) option" where
  "ReadFrom (duplexConnAdaptor conn r w) src =
     (case io_Copy w src of (res, w', src') \<Rightarrow> Some (res, duplexConnAdaptor conn r w', src'))"
| "ReadFrom (NetConn c) src = None"

text \<open>\<^verbatim>\<open>WrapConn\<close>: the type assertion \<^verbatim>\<open>c.(*duplexConnAdaptor)\<close> is the case split.\<close>

definition WrapConn :: "duplexConn \<Rightarrow> reader \<Rightarrow> writer \<Rightarrow> duplexConn" where
  "WrapConn c r w =
     (let conn = (case c of duplexConnAdaptor a_DuplexConn a_r a_w \<Rightarrow> a_DuplexConn | _ \<Rightarrow> c)
      in duplexConnAdaptor conn r w)"

text \<open>
  Where the \<^verbatim>\<open>Read\<close> and \<^verbatim>\<open>Write\<close> of a connection are served, how many adaptors are
  stacked on it, and the half-close calls that reached its innermost connection.
\<close>

fun readerOf :: "duplexConn \<Rightarrow> reader" where
  "readerOf (NetConn c) = rd c"
| "readerOf (duplexConnAdaptor conn r w) = r"

fun writerOf :: "duplexConn \<Rightarrow> writer" where
  "writerOf (NetConn c) = wr c"
| "writerOf (duplexConnAdaptor conn r w) = w"

fun withReader :: "duplexConn \<Rightarrow> reader \<Rightarrow> duplexConn" where
  "withReader (NetConn c) r' = NetConn (c\<lparr>rd := r'\<rparr>)"
| "withReader (duplexConnAdaptor conn r w) r' = duplexConnAdaptor conn r' w"

fun withWriter :: "duplexConn \<Rightarrow> writer \<Rightarrow> duplexConn" where
  "withWriter (NetConn c) w' = NetConn (c\<lparr>wr := w'\<rparr>)"
| "withWriter (duplexConnAdaptor conn r w) w' = duplexConnAdaptor conn r w'"

fun closeLog :: "duplexConn \<Rightarrow> closeOp list" where
  "closeLog (NetConn c) = halfCloses c"
| "closeLog (duplexConnAdaptor conn r w) = closeLog conn"

fun depth :: "duplexConn \<Rightarrow> nat" where
  "depth (NetConn c) = 0"
| "depth (duplexConnAdaptor conn r w) = Suc (depth conn)"

subsection \<open>copyOneWay and Relay\<close>

text \<open>
  \<^verbatim>\<open>io.Copy(dst, src)\<close> on two connections. Whether the library takes
  \<^verbatim>\<open>src.WriteTo(dst)\<close>, \<^verbatim>\<open>dst.ReadFrom(src)\<close> or its own loop over \<^verbatim>\<open>src.Read\<close> and
  \<^verbatim>\<open>dst.Write\<close>, the bytes go from where the source's reads are served to where the
  destination's writes are served.
\<close>

definition io_Copy_conn ::
  "duplexConn \<Rightarrow> duplexConn \<Rightarrow> (int \<times> error option) \<times> duplexConn \<times> duplexConn" where
  "io_Copy_conn dst src =
     (case io_Copy (writerOf dst) (readerOf src) of
        (res, w', r') \<Rightarrow> (res, withWriter dst w', withReader src r'))"

text \<open>
  \<^verbatim>\<open>copyOneWay(leftConn, rightConn)\<close> copies from \<^verbatim>\<open>rightConn\<close> to \<^verbatim>\<open>leftConn\<close>
  (\<^verbatim>\<open>io.Copy\<close> takes the destination first), then half-closes both.
\<close>

definition copyOneWay ::
  "duplexConn \<Rightarrow> duplexConn \<Rightarrow> (int \<times> error option) \<times> duplexConn \<times> duplexConn" where
  "copyOneWay leftConn rightConn =
     (case io_Copy_conn leftConn rightConn of
        ((n, err), leftConn', rightConn') \<Rightarrow>
          ((n, err), CloseWrite leftConn', CloseRead rightConn'))"

text \<open>
  \<^verbatim>\<open>Relay\<close>. The goroutine runs \<^verbatim>\<open>copyOneWay(rightConn, leftConn)\<close> and sends its
  result \<^verbatim>\<open>rs\<close> on the channel; the caller runs \<^verbatim>\<open>copyOneWay(leftConn, rightConn)\<close>,
  receives \<^verbatim>\<open>rs\<close> and returns \<^verbatim>\<open>n, rs.N, err\<close>. The two copies run concurrently. Each
  one uses the reading side of its source and the writing side of its destination only,
  so they share no data; here the goroutine's copy runs first, and
  \<open>Relay_caller_first\<close> is the other order.
\<close>

definition Relay ::
  "duplexConn \<Rightarrow> duplexConn \<Rightarrow> (int \<times> int \<times> error option) \<times> duplexConn \<times> duplexConn" where
  "Relay leftConn rightConn =
     (case copyOneWay rightConn leftConn of
        ((rs_N, rs_Err), rightConn', leftConn') \<Rightarrow>
          (case copyOneWay leftConn' rightConn' of
             ((n, err), leftConn'', rightConn'') \<Rightarrow>
               ((n, rs_N, if err = None then rs_Err else err), leftConn'', rightConn'')))"

definition Relay_caller_first ::
  "duplexConn \<Rightarrow> duplexConn \<Rightarrow> (int \<times> int \<times> error option) \<times> duplexConn \<times> duplexConn" where
  "Relay_caller_first leftConn rightConn =
     (case copyOneWay leftConn rightConn of
        ((n, err), leftConn', rightConn') \<Rightarrow>
          (case copyOneWay rightConn' leftConn' of
             ((rs_N, rs_Err), rightConn'', leftConn'') \<Rightarrow>
               ((n, rs_N, if err = None then rs_Err else err), leftConn'', rightConn'')))"

text \<open>
  What a connection will deliver to its reader, and concrete connections for the
  examples: a fresh connection that delivers the given chunks and then ends with the
  given error.
\<close>

definition yields :: "duplexConn \<Rightarrow> bytes" where
  "yields c = concat (pending (readerOf c))"

definition errorFree :: "duplexConn \<Rightarrow> bool" where
  "errorFree c = (ending (readerOf c) = EOF \<and> failing (writerOf c) = None)"

definition freshConn :: "bytes list \<Rightarrow> error \<Rightarrow> duplexConn" where
  "freshConn chunks e =
     NetConn \<lparr>rd = \<lparr>pending = chunks, ending = e\<rparr>,
              wr = \<lparr>accepted = [], failing = None\<rparr>,
              halfCloses = []\<rparr>"

definition connA :: duplexConn where
  "connA = freshConn [[1, 2], [3]] EOF"

definition connB :: duplexConn where
  "connB = freshConn [[9, 9, 9, 9, 9]] EOF"

definition brokenA :: duplexConn where
  "brokenA = freshConn [[1]] (Ext ''read from a failed'')"

definition brokenB :: duplexConn where
  "brokenB = freshConn [[2]] (Ext ''read from b failed'')"

section \<open>service/metrics/metrics.go, package main: ports and configuration reload\<close>

subsection \<open>Data\<close>

text \<open>
  The entries of \<^verbatim>\<open>Config.Keys\<close>. A cipher built by \<^verbatim>\<open>ss.NewCipher\<close> and the
  sockets returned by \<^verbatim>\<open>net.ListenTCP\<close> and \<^verbatim>\<open>net.ListenUDP\<close> are opaque handles.
\<close>

record KeyConfig =
  ID :: string
  Port :: int
  Cipher :: string
  Secret :: string

record Config =
  Keys :: "KeyConfig list"

type_synonym cipher = nat
type_synonym TCPListener = nat
type_synonym UDPConn = nat

text \<open>\<^verbatim>\<open>service.MakeCipherEntry(id, cipher, secret)\<close>.\<close>

record CipherEntry =
  entryID :: string
  entryCipher :: cipher
  entrySecret :: string

definition MakeCipherEntry :: "string \<Rightarrow> cipher \<Rightarrow> string \<Rightarrow> CipherEntry" where
  "MakeCipherEntry i c sec = \<lparr>entryID = i, entryCipher = c, entrySecret = sec\<rparr>"

text \<open>
  \<^verbatim>\<open>ssPort\<close>. A service is identified with the socket it serves; \<open>cipherList\<close> is the
  content of the \<^verbatim>\<open>service.CipherList\<close> the two services share.
\<close>

record ssPort =
  tcpService :: TCPListener
  udpService :: UDPConn
  cipherList :: "CipherEntry list"

text \<open>
  The calls that leave the process, each with the port it is made for: binding the two
  sockets, launching the two serving loops, stopping the two services.
\<close>

datatype syscall =
    ListenTCP int | ListenUDP int
  | ServeTCP int | ServeUDP int
  | StopTCP int | StopUDP int

fun portOf :: "syscall \<Rightarrow> int" where
  "portOf (ListenTCP p) = p"
| "portOf (ListenUDP p) = p"
| "portOf (ServeTCP p) = p"
| "portOf (ServeUDP p) = p"
| "portOf (StopTCP p) = p"
| "portOf (StopUDP p) = p"

text \<open>
  \<^verbatim>\<open>SSServer\<close>: the map \<^verbatim>\<open>ports\<close>, and the calls made so far, oldest first. The
  fields \<^verbatim>\<open>natTimeout\<close>, \<^verbatim>\<open>m\<close> and \<^verbatim>\<open>replayCache\<close> are never assigned after
  construction and are left out, as are logging and the metrics gauge.
\<close>

record SSServer =
  ports :: "int \<rightharpoonup> ssPort"
  journal :: "syscall list"

text \<open>
  What the world outside answers: whether a cipher can be built from a cipher name and
  a secret, whether a socket can be bound on a port, and whether stopping a service
  fails.
\<close>

record env =
  NewCipher :: "string \<Rightarrow> string \<Rightarrow> error + cipher"
  net_ListenTCP :: "int \<Rightarrow> error + TCPListener"
  net_ListenUDP :: "int \<Rightarrow> error + UDPConn"
  tcpService_Stop :: "TCPListener \<Rightarrow> error option"
  udpService_Stop :: "UDPConn \<Rightarrow> error option"

text \<open>
  A \<^verbatim>\<open>range\<close> over a Go map visits every key once, in an order the runtime picks.
  The three \<^verbatim>\<open>range\<close> loops of \<^verbatim>\<open>loadConfig\<close> take their orders from here.
\<close>

record ranges =
  range_ports :: "int list"
  range_portChanges :: "int list"
  range_portCiphers :: "int list"

subsection \<open>startPort and removePort\<close>

definition startPort :: "env \<Rightarrow> SSServer \<Rightarrow> int \<Rightarrow> SSServer \<times> error option" where
  "startPort e s portNum =
     (case net_ListenTCP e portNum of
        Inl err \<Rightarrow>
          (s\<lparr>journal := journal s @ [ListenTCP portNum]\<rparr>,
           Some (Errorf ''Failed to start TCP on port %v: %v'' [ArgInt portNum, ArgErr err]))
      | Inr listener \<Rightarrow>
          (case net_ListenUDP e portNum of
             Inl err \<Rightarrow>
               (s\<lparr>journal := journal s @ [ListenTCP portNum, ListenUDP portNum]\<rparr>,
                Some (Errorf ''Failed to start UDP on port %v: %v''
                        [ArgInt portNum, ArgErr err]))
           | Inr packetConn \<Rightarrow>
               let port = \<lparr>tcpService = listener, udpService = packetConn, cipherList = []\<rparr>
               in (s\<lparr>ports := (ports s)(portNum \<mapsto> port),
                     journal := journal s @ [ListenTCP portNum, ListenUDP portNum,
                                             ServeTCP portNum, ServeUDP portNum]\<rparr>,
                   None)))"

definition removePort :: "env \<Rightarrow> SSServer \<Rightarrow> int \<Rightarrow> SSServer \<times> error option" where
  "removePort e s portNum =
     (case ports s portNum of
        None \<Rightarrow> (s, Some (Errorf ''Port %v doesn't exist'' [ArgInt portNum]))
      | Some port \<Rightarrow>
          let tcpErr = tcpService_Stop e (tcpService port);
              udpErr = udpService_Stop e (udpService port);
              s' = s\<lparr>ports := (ports s)(portNum := None),
                     journal := journal s @ [StopTCP portNum, StopUDP portNum]\<rparr>
          in (case tcpErr of
                Some err \<Rightarrow>
                  (s', Some (Errorf ''Failed to close listener on %v: %v''
                               [ArgInt portNum, ArgErr err]))
              | None \<Rightarrow>
                  (case udpErr of
                     Some err \<Rightarrow>
                       (s', Some (Errorf ''Failed to close packetConn on %v: %v''
                                    [ArgInt portNum, ArgErr err]))
                   | None \<Rightarrow> (s', None))))"

subsection \<open>loadConfig\<close>

text \<open>Reading a key that is not in a Go map gives the zero value.\<close>

definition lookup0 :: "(int \<rightharpoonup> int) \<Rightarrow> int \<Rightarrow> int" where
  "lookup0 m k = (case m k of None \<Rightarrow> 0 | Some v \<Rightarrow> v)"

text \<open>
  The first loop, over \<^verbatim>\<open>config.Keys\<close>: it fills \<^verbatim>\<open>portChanges\<close> and
  \<^verbatim>\<open>portCiphers\<close> and returns at the first key whose cipher cannot be built.
\<close>

fun buildPortMaps ::
  "env \<Rightarrow> KeyConfig list \<Rightarrow> (int \<rightharpoonup> int) \<Rightarrow> (int \<rightharpoonup> CipherEntry list)
   \<Rightarrow> error + ((int \<rightharpoonup> int) \<times> (int \<rightharpoonup> CipherEntry list))" where
  "buildPortMaps e [] portChanges portCiphers = Inr (portChanges, portCiphers)"
| "buildPortMaps e (keyConfig # rest) portChanges portCiphers =
     (let portChanges' = portChanges(Port keyConfig \<mapsto> 1);
          cipherList = (case portCiphers (Port keyConfig) of None \<Rightarrow> [] | Some l \<Rightarrow> l)
      in case NewCipher e (Cipher keyConfig) (Secret keyConfig) of
           Inl err \<Rightarrow>
             Inl (Errorf ''Failed to create cipher for key %v: %v''
                    [ArgStr (ID keyConfig), ArgErr err])
         | Inr c \<Rightarrow>
             let entry = MakeCipherEntry (ID keyConfig) c (Secret keyConfig)
             in buildPortMaps e rest portChanges'
                  (portCiphers(Port keyConfig \<mapsto> cipherList @ [entry])))"

text \<open>The second loop, over the keys of \<^verbatim>\<open>s.ports\<close>.\<close>

fun countBound :: "int list \<Rightarrow> (int \<rightharpoonup> int) \<Rightarrow> (int \<rightharpoonup> int)" where
  "countBound [] portChanges = portChanges"
| "countBound (port # rest) portChanges =
     countBound rest (portChanges(port \<mapsto> lookup0 portChanges port - 1))"

text \<open>
  The third loop, over \<^verbatim>\<open>portChanges\<close>: it returns at the first port whose removal or
  start fails. A key of the order that is not in the map is passed over.
\<close>

fun applyPortChanges ::
  "env \<Rightarrow> (int \<rightharpoonup> int) \<Rightarrow> int list \<Rightarrow> SSServer \<Rightarrow> SSServer \<times> error option" where
  "applyPortChanges e portChanges [] s = (s, None)"
| "applyPortChanges e portChanges (portNum # rest) s =
     (case portChanges portNum of
        None \<Rightarrow> applyPortChanges e portChanges rest s
      | Some count \<Rightarrow>
          if count = - 1 then
            (case removePort e s portNum of
               (s', Some err) \<Rightarrow>
                 (s', Some (Errorf ''Failed to remove port %v: %v''
                              [ArgInt portNum, ArgErr err]))
             | (s', None) \<Rightarrow> applyPortChanges e portChanges rest s')
          else if count = 1 then
            (case startPort e s portNum of
               (s', Some err) \<Rightarrow>
                 (s', Some (Errorf ''Failed to start port %v: %v''
                              [ArgInt portNum, ArgErr err]))
             | (s', None) \<Rightarrow> applyPortChanges e portChanges rest s')
          else applyPortChanges e portChanges rest s)"

text \<open>
  The fourth loop, over \<^verbatim>\<open>portCiphers\<close>: \<^verbatim>\<open>s.ports[portNum].cipherList.Update(cipherList)\<close>
  replaces the content of the port's cipher list. \<^verbatim>\<open>s.ports[portNum]\<close> is a nil
  pointer when the port is not in the map, and the call panics.
\<close>

fun updateCiphers ::
  "(int \<rightharpoonup> CipherEntry list) \<Rightarrow> int list \<Rightarrow> SSServer \<Rightarrow> panic + SSServer" where
  "updateCiphers portCiphers [] s = Inr s"
| "updateCiphers portCiphers (portNum # rest) s =
     (case portCiphers portNum of
        None \<Rightarrow> updateCiphers portCiphers rest s
      | Some cipherList' \<Rightarrow>
          (case ports s portNum of
             None \<Rightarrow> Inl NilPointerDereference
           | Some port \<Rightarrow>
               updateCiphers portCiphers rest
                 (s\<lparr>ports := (ports s)(portNum \<mapsto> port\<lparr>cipherList := cipherList'\<rparr>)\<rparr>)))"

definition loadConfig ::
  "env \<Rightarrow> ranges \<Rightarrow> SSServer \<Rightarrow> Config \<Rightarrow> panic + (SSServer \<times> error option)" where
  "loadConfig e rg s config =
     (case buildPortMaps e (Keys config) Map.empty Map.empty of
        Inl err \<Rightarrow> Inr (s, Some err)
      | Inr (portChanges, portCiphers) \<Rightarrow>
          (case applyPortChanges e (countBound (range_ports rg) portChanges)
                  (range_portChanges rg) s of
             (s', Some err) \<Rightarrow> Inr (s', Some err)
           | (s', None) \<Rightarrow>
               (case updateCiphers portCiphers (range_portCiphers rg) s' of
                  Inl p \<Rightarrow> Inl p
                | Inr s'' \<Rightarrow> Inr (s'', None))))"

text \<open>The orders a run of \<^verbatim>\<open>loadConfig\<close> can meet: each lists the keys of its map once.\<close>

definition configPorts :: "Config \<Rightarrow> int set" where
  "configPorts config = Port ` set (Keys config)"

definition validRanges :: "ranges \<Rightarrow> SSServer \<Rightarrow> Config \<Rightarrow> bool" where
  "validRanges rg s config =
     (distinct (range_ports rg) \<and> set (range_ports rg) = dom (ports s)
      \<and> distinct (range_portChanges rg)
      \<and> set (range_portChanges rg) = configPorts config \<union> dom (ports s)
      \<and> distinct (range_portCiphers rg) \<and> set (range_portCiphers rg) = configPorts config)"

text \<open>
  The cipher entry \<^verbatim>\<open>loadConfig\<close> builds from one key, when its cipher can be built, and
  the content of a map entry that may be absent.
\<close>

definition entryOf :: "env \<Rightarrow> KeyConfig \<Rightarrow> CipherEntry option" where
  "entryOf e k =
     (case NewCipher e (Cipher k) (Secret k) of
        Inl err \<Rightarrow> None
      | Inr c \<Rightarrow> Some (MakeCipherEntry (ID k) c (Secret k)))"

definition listOf :: "CipherEntry list option \<Rightarrow> CipherEntry list" where
  "listOf x = (case x of None \<Rightarrow> [] | Some l \<Rightarrow> l)"

subsection \<open>Concrete servers, configurations and answers of the world\<close>

text \<open>
  In \<open>exampleEnv\<close> the cipher \<open>rot13\<close> cannot be built, port 81 cannot be bound, and
  stopping either service of the sockets numbered 90 fails.
\<close>

definition exampleEnv :: env where
  "exampleEnv =
     \<lparr>NewCipher = (\<lambda>c sec. if c = ''rot13'' then Inl (Ext ''unsupported cipher'')
                              else Inr (length sec)),
      net_ListenTCP = (\<lambda>p. if p = 81 then Inl (Ext ''address already in use'') else Inr (nat p)),
      net_ListenUDP = (\<lambda>p. Inr (nat p)),
      tcpService_Stop = (\<lambda>l. if l = 90 then Some (Ext ''tcp close failed'') else None),
      udpService_Stop = (\<lambda>l. if l = 90 then Some (Ext ''udp close failed'') else None)\<rparr>"

definition accessKey :: "string \<Rightarrow> int \<Rightarrow> string \<Rightarrow> string \<Rightarrow> KeyConfig" where
  "accessKey i p c sec = \<lparr>ID = i, Port = p, Cipher = c, Secret = sec\<rparr>"

definition bound :: "nat \<Rightarrow> ssPort" where
  "bound h = \<lparr>tcpService = h, udpService = h, cipherList = []\<rparr>"

definition serving80 :: SSServer where
  "serving80 = \<lparr>ports = [80 \<mapsto> bound 80], journal = []\<rparr>"

definition serving90 :: SSServer where
  "serving90 = \<lparr>ports = [90 \<mapsto> bound 90], journal = []\<rparr>"

definition rotated :: Config where
  "rotated = \<lparr>Keys = [accessKey ''A'' 80 ''aes-256-gcm'' ''s3cret'',
                       accessKey ''C'' 82 ''aes-256-gcm'' ''pw'']\<rparr>"

definition rotatedRanges :: ranges where
  "rotatedRanges = \<lparr>range_ports = [80], range_portChanges = [82, 80],
                    range_portCiphers = [80, 82]\<rparr>"




section \<open>The connection marker: properties\<close>

lemma Uint32_four_bytes:
  "BigEndian_Uint32 [a, b, c, d]
     = Inr (ucast d OR push_bit 8 (ucast c) OR push_bit 16 (ucast b) OR push_bit 24 (ucast a))"
  by (simp add: BigEndian_Uint32_def)

lemma Uint32_byte3:
  "ucast (ucast d OR push_bit 8 (ucast c) OR push_bit 16 (ucast b)
          OR push_bit 24 (ucast a) :: 32 word) = (d :: 8 word)"
  for a b c :: "8 word"
  by (rule bit_word_eqI) (auto simp add: bit_simps dest: bit_imp_le_length)

lemma Uint32_byte2:
  "ucast (drop_bit 8 (ucast d OR push_bit 8 (ucast c) OR push_bit 16 (ucast b)
          OR push_bit 24 (ucast a) :: 32 word)) = (c :: 8 word)"
  for a b d :: "8 word"
  by (rule bit_word_eqI) (auto simp add: bit_simps dest: bit_imp_le_length)

lemma Uint32_byte1:
  "ucast (drop_bit 16 (ucast d OR push_bit 8 (ucast c) OR push_bit 16 (ucast b)
          OR push_bit 24 (ucast a) :: 32 word)) = (b :: 8 word)"
  for a c d :: "8 word"
  by (rule bit_word_eqI) (auto simp add: bit_simps dest: bit_imp_le_length)

lemma Uint32_byte0:
  "ucast (drop_bit 24 (ucast d OR push_bit 8 (ucast c) OR push_bit 16 (ucast b)
          OR push_bit 24 (ucast a) :: 32 word)) = (a :: 8 word)"
  for b c d :: "8 word"
  by (rule bit_word_eqI) (auto simp add: bit_simps dest: bit_imp_le_length)

text \<open>
  On the 4-byte form the mark is the address read big-endian, and two distinct addresses
  get distinct marks.
\<close>

lemma NewMarker_short_form_injective:
  "NewMarker [a, b, c, d] = NewMarker [a', b', c', d'] \<Longrightarrow> [a, b, c, d] = [a', b', c', d']"
proof -
  assume eq: "NewMarker [a, b, c, d] = NewMarker [a', b', c', d']"
  let ?u = "ucast d OR push_bit 8 (ucast c) OR push_bit 16 (ucast b)
              OR push_bit 24 (ucast a) :: 32 word"
  let ?u' = "ucast d' OR push_bit 8 (ucast c') OR push_bit 16 (ucast b')
              OR push_bit 24 (ucast a') :: 32 word"
  from eq have "uint ?u = uint ?u'"
    by (simp add: NewMarker_def To4_def Uint32_four_bytes)
  then have same: "?u = ?u'"
    by (rule word_uint_eqI)
  have "d = d'"
    using Uint32_byte3 [of d c b a] Uint32_byte3 [of d' c' b' a'] same by simp
  moreover have "c = c'"
    using Uint32_byte2 [of d c b a] Uint32_byte2 [of d' c' b' a'] same by simp
  moreover have "b = b'"
    using Uint32_byte1 [of d c b a] Uint32_byte1 [of d' c' b' a'] same by simp
  moreover have "a = a'"
    using Uint32_byte0 [of d c b a] Uint32_byte0 [of d' c' b' a'] same by simp
  ultimately show ?thesis by simp
qed

text \<open>Two IPv6 addresses with the same first 6 bytes get the same mark.\<close>

lemma NewMarker_same_prefix:
  "To4 ip = None \<Longrightarrow> To4 ip' = None \<Longrightarrow> length ip = 16 \<Longrightarrow> length ip' = 16
   \<Longrightarrow> take 6 ip = take 6 ip' \<Longrightarrow> NewMarker ip = NewMarker ip'"
  by (simp add: NewMarker_def)

text \<open>
  Claim C6. The mark is meant to be a function of the client address that tells any two
  IPv4 addresses apart. On the 16-byte form of an IPv4 address \<^verbatim>\<open>To4\<close> succeeds, and the
  code then reads the first four bytes of the 16-byte slice, which are zero: 1.2.3.4 and
  1.2.3.5 both get the mark 0, while the 4-byte form of 1.2.3.4 gets 16909060.
\<close>

theorem NewMarker_mapped_ipv4_collide:
  "To4 (IPv4 1 2 3 4) = Some [1, 2, 3, 4] \<and> To4 (IPv4 1 2 3 5) = Some [1, 2, 3, 5]
   \<and> NewMarker (IPv4 1 2 3 4) = Inr \<lparr>mark = 0\<rparr>
   \<and> NewMarker (IPv4 1 2 3 5) = Inr \<lparr>mark = 0\<rparr>
   \<and> NewMarker [1, 2, 3, 4] = Inr \<lparr>mark = 16909060\<rparr>"
  by (simp add: NewMarker_def To4_def IPv4_def BigEndian_Uint32_def)

section \<open>The counter guard: properties\<close>





section \<open>Duplex connections: properties\<close>

lemma readerOf_simps [simp]:
  "readerOf (withReader c r') = r'"
  "readerOf (withWriter c w') = readerOf c"
  "readerOf (CloseRead c) = readerOf c"
  "readerOf (CloseWrite c) = readerOf c"
  by (induction c) auto

lemma writerOf_simps [simp]:
  "writerOf (withWriter c w') = w'"
  "writerOf (withReader c r') = writerOf c"
  "writerOf (CloseRead c) = writerOf c"
  "writerOf (CloseWrite c) = writerOf c"
  by (induction c) auto

lemma closeLog_simps [simp]:
  "closeLog (withWriter c w') = closeLog c"
  "closeLog (withReader c r') = closeLog c"
  "closeLog (CloseRead c) = closeLog c @ [CloseReadCall]"
  "closeLog (CloseWrite c) = closeLog c @ [CloseWriteCall]"
  by (induction c) auto

lemma Read_served_by_readerOf:
  "Read c = (case readerRead (readerOf c) of (res, r') \<Rightarrow> (res, withReader c r'))"
  by (cases c) auto

lemma Write_served_by_writerOf:
  "Write c b = (case writerWrite (writerOf c) b of (res, w') \<Rightarrow> (res, withWriter c w'))"
  by (cases c) auto

subsection \<open>The copy loop without errors\<close>

lemma copyBuffer_clean:
  "ending src = EOF \<Longrightarrow> failing dst = None \<Longrightarrow>
     copyBuffer dst src n
       = ((n + int (length (concat (pending src))), None),
          dst\<lparr>accepted := accepted dst @ concat (pending src)\<rparr>, src\<lparr>pending := []\<rparr>)"
proof (induction "pending src" arbitrary: dst src n)
  case Nil
  then show ?case
    by (subst copyBuffer.simps) (simp add: readerRead_def)
next
  case (Cons c cs)
  from Cons.hyps(2) have p: "pending src = c # cs" by simp
  have ih: "copyBuffer dst' (src\<lparr>pending := cs\<rparr>) n'
       = ((n' + int (length (concat cs)), None),
          dst'\<lparr>accepted := accepted dst' @ concat cs\<rparr>, src\<lparr>pending := []\<rparr>)"
    if "failing dst' = None" for dst' n'
    using Cons.hyps(1) [of "src\<lparr>pending := cs\<rparr>" dst' n'] Cons.prems that by simp
  show ?case
    by (subst copyBuffer.simps) (simp add: readerRead_def writerWrite_def p Cons.prems ih)
qed

lemma copyOneWay_result:
  "fst (copyOneWay dst src) = fst (io_Copy (writerOf dst) (readerOf src))"
  by (simp add: copyOneWay_def io_Copy_conn_def split: prod.splits)

lemma copyOneWay_clean:
  "ending (readerOf src) = EOF \<Longrightarrow> failing (writerOf dst) = None \<Longrightarrow>
     fst (copyOneWay dst src) = (int (length (yields src)), None)"
  by (simp add: copyOneWay_result io_Copy_def copyBuffer_clean yields_def)

lemma copyOneWay_other_halves:
  "writerOf (snd (snd (copyOneWay dst src))) = writerOf src"
  "readerOf (fst (snd (copyOneWay dst src))) = readerOf dst"
  by (simp_all add: copyOneWay_def io_Copy_conn_def split: prod.splits)

lemma copyOneWay_closeLog:
  "closeLog (fst (snd (copyOneWay dst src))) = closeLog dst @ [CloseWriteCall]"
  "closeLog (snd (snd (copyOneWay dst src))) = closeLog src @ [CloseReadCall]"
  by (simp_all add: copyOneWay_def io_Copy_conn_def split: prod.splits)

text \<open>
  What \<^verbatim>\<open>Relay\<close> returns, in terms of the two copies taken alone: the count and error
  of the copy from \<open>b\<close> to \<open>a\<close> (\<open>copyOneWay a b\<close>, run by the caller) and of the copy
  from \<open>a\<close> to \<open>b\<close> (\<open>copyOneWay b a\<close>, run by the goroutine).
\<close>

lemma Relay_result:
  "fst (Relay a b) =
     (fst (fst (copyOneWay a b)), fst (fst (copyOneWay b a)),
      if snd (fst (copyOneWay a b)) = None then snd (fst (copyOneWay b a))
      else snd (fst (copyOneWay a b)))"
proof -
  obtain rs_N rs_Err b' a' where g: "copyOneWay b a = ((rs_N, rs_Err), b', a')"
    by (metis prod.exhaust)
  obtain n err a'' b'' where m: "copyOneWay a' b' = ((n, err), a'', b'')"
    by (metis prod.exhaust)
  have "writerOf a' = writerOf a" "readerOf b' = readerOf b"
    using copyOneWay_other_halves [of b a] g by simp_all
  then have "fst (copyOneWay a' b') = fst (copyOneWay a b)"
    by (simp add: copyOneWay_result)
  with m have c: "fst (copyOneWay a b) = (n, err)"
    by simp
  show ?thesis
    by (simp add: Relay_def g m c)
qed

text \<open>The order in which the two copies are run does not change what is returned.\<close>

lemma Relay_schedule: "fst (Relay_caller_first a b) = fst (Relay a b)"
proof -
  obtain n err a' b' where g: "copyOneWay a b = ((n, err), a', b')"
    by (metis prod.exhaust)
  obtain rs_N rs_Err b'' a'' where m: "copyOneWay b' a' = ((rs_N, rs_Err), b'', a'')"
    by (metis prod.exhaust)
  have "writerOf b' = writerOf b" "readerOf a' = readerOf a"
    using copyOneWay_other_halves [of a b] g by simp_all
  then have "fst (copyOneWay b' a') = fst (copyOneWay b a)"
    by (simp add: copyOneWay_result)
  with m have c: "fst (copyOneWay b a) = (rs_N, rs_Err)"
    by simp
  show ?thesis
    by (simp add: Relay_result Relay_caller_first_def g m c)
qed

subsection \<open>Byte counts\<close>

text \<open>
  Claim C3, as stated: with \<open>a\<close> delivering \<open>N\<close> bytes and \<open>b\<close> delivering \<open>M\<close> bytes and
  no errors, \<^verbatim>\<open>Relay(a, b)\<close> returns \<open>(N, M, nil)\<close>. It does not: \<open>connA\<close> delivers 3 bytes
  in two chunks, \<open>connB\<close> delivers 5 bytes, neither has an error, and the result is
  \<open>(5, 3, nil)\<close>.
\<close>

theorem Relay_counts_swapped_counterexample:
  "errorFree connA \<and> errorFree connB
   \<and> length (yields connA) = 3 \<and> length (yields connB) = 5
   \<and> fst (Relay connA connB) = (5, 3, None)
   \<and> fst (Relay connA connB)
        \<noteq> (int (length (yields connA)), int (length (yields connB)), None)"
  by (simp add: Relay_result copyOneWay_result io_Copy_def copyBuffer_clean
        errorFree_def yields_def connA_def connB_def freshConn_def)

text \<open>
  Claim C3, amended: with no read or write error on either side, \<^verbatim>\<open>Relay(a, b)\<close>
  returns first the number of bytes copied from \<open>b\<close> to \<open>a\<close>, then the number copied from
  \<open>a\<close> to \<open>b\<close>, and no error. Each count is the full length of what the source delivers,
  however it is split into chunks.
\<close>

theorem Relay_counts:
  assumes "errorFree a" and "errorFree b"
  shows "fst (Relay a b) = (int (length (yields b)), int (length (yields a)), None)"
  using assms by (simp add: Relay_result copyOneWay_clean errorFree_def)

theorem Relay_counts_witness:
  "errorFree connA \<and> errorFree connB
   \<and> fst (Relay connA connB) = (int (length (yields connB)), int (length (yields connA)), None)"
proof -
  have a: "errorFree connA" and b: "errorFree connB"
    by (simp_all add: errorFree_def connA_def connB_def freshConn_def)
  show ?thesis
    using a b Relay_counts [OF a b] by simp
qed

subsection \<open>Error precedence\<close>

text \<open>
  Claim C4, as stated: when both copies fail, \<^verbatim>\<open>Relay(a, b)\<close> returns the error of the
  copy from \<open>a\<close> to \<open>b\<close>. It does not: with reads failing on both sides, the copy from
  \<open>a\<close> to \<open>b\<close> (\<open>copyOneWay brokenB brokenA\<close>) fails with the read error of \<open>a\<close>, the copy
  from \<open>b\<close> to \<open>a\<close> fails with the read error of \<open>b\<close>, and the read error of \<open>b\<close> is
  returned.
\<close>

theorem Relay_error_forward_counterexample:
  "snd (fst (copyOneWay brokenB brokenA)) = Some (Ext ''read from a failed'')
   \<and> snd (fst (copyOneWay brokenA brokenB)) = Some (Ext ''read from b failed'')
   \<and> snd (snd (fst (Relay brokenA brokenB))) = Some (Ext ''read from b failed'')
   \<and> snd (snd (fst (Relay brokenA brokenB))) \<noteq> snd (fst (copyOneWay brokenB brokenA))"
proof -
  have ba: "fst (copyOneWay brokenA brokenB) = (1, Some (Ext ''read from b failed''))"
    unfolding copyOneWay_result io_Copy_def brokenA_def brokenB_def freshConn_def
    by (simp add: copyBuffer.simps [of _ _ 0] copyBuffer.simps [of _ _ 1]
          readerRead_def writerWrite_def EOF_def)
  have ab: "fst (copyOneWay brokenB brokenA) = (1, Some (Ext ''read from a failed''))"
    unfolding copyOneWay_result io_Copy_def brokenA_def brokenB_def freshConn_def
    by (simp add: copyBuffer.simps [of _ _ 0] copyBuffer.simps [of _ _ 1]
          readerRead_def writerWrite_def EOF_def)
  show ?thesis
    by (simp add: Relay_result ba ab)
qed

text \<open>
  Claim C4, amended: the error \<^verbatim>\<open>Relay(a, b)\<close> returns is the error of the copy from
  \<open>b\<close> to \<open>a\<close>, the one the caller runs, whenever that copy fails; the error of the copy
  from \<open>a\<close> to \<open>b\<close> is returned only when the copy from \<open>b\<close> to \<open>a\<close> succeeds. So when both
  fail the error of the copy from \<open>a\<close> to \<open>b\<close> is dropped, when one fails its error is
  returned, and when none fails the result is \<^verbatim>\<open>nil\<close>.
\<close>

theorem Relay_error_precedence:
  "snd (snd (fst (Relay a b))) =
     (case snd (fst (copyOneWay a b)) of
        Some e \<Rightarrow> Some e
      | None \<Rightarrow> snd (fst (copyOneWay b a)))"
  by (simp add: Relay_result split: option.split)

subsection \<open>Half-closing\<close>

text \<open>
  Claim C5. When the copy from \<open>src\<close> to \<open>dst\<close> is over, with or without an error,
  \<open>copyOneWay dst src\<close> has made exactly one half-close call on each connection:
  \<^verbatim>\<open>CloseWrite\<close> on the destination and \<^verbatim>\<open>CloseRead\<close> on the source. It leaves the
  reading side of the destination and the writing side of the source as they were, so
  the copy in the opposite direction returns afterwards what it would have returned
  before.
\<close>

theorem copyOneWay_half_closes:
  "closeLog (fst (snd (copyOneWay dst src))) = closeLog dst @ [CloseWriteCall]
   \<and> closeLog (snd (snd (copyOneWay dst src))) = closeLog src @ [CloseReadCall]
   \<and> readerOf (fst (snd (copyOneWay dst src))) = readerOf dst
   \<and> writerOf (snd (snd (copyOneWay dst src))) = writerOf src
   \<and> fst (copyOneWay (snd (snd (copyOneWay dst src))) (fst (snd (copyOneWay dst src))))
       = fst (copyOneWay src dst)"
  by (simp add: copyOneWay_closeLog copyOneWay_other_halves copyOneWay_result)

subsection \<open>Wrapping\<close>

lemma WrapConn_cases:
  "WrapConn (NetConn n) r w = duplexConnAdaptor (NetConn n) r w"
  "WrapConn (duplexConnAdaptor conn r0 w0) r w = duplexConnAdaptor conn r w"
  by (simp_all add: WrapConn_def)

lemma WrapConn_twice: "WrapConn (WrapConn c r1 w1) r2 w2 = WrapConn c r2 w2"
  by (cases c) (simp_all add: WrapConn_cases)

lemma depth_WrapConn: "depth (WrapConn c r w) = max 1 (depth c)"
  by (cases c) (simp_all add: WrapConn_cases)

lemma depth_rewrap:
  "depth c \<le> 1 \<Longrightarrow> depth (fold (\<lambda>(r, w) c. WrapConn c r w) rws c) \<le> 1"
  by (induction rws arbitrary: c) (auto simp: depth_WrapConn)

text \<open>
  Claim C8. The connection \<^verbatim>\<open>WrapConn(c, r, w)\<close> serves \<^verbatim>\<open>Read\<close> and \<^verbatim>\<open>WriteTo\<close> from
  \<open>r\<close> and \<^verbatim>\<open>Write\<close> and \<^verbatim>\<open>ReadFrom\<close> into \<open>w\<close>, and passes \<^verbatim>\<open>CloseRead\<close> and
  \<^verbatim>\<open>CloseWrite\<close> on to \<open>c\<close>. Wrapping a wrapped connection again replaces \<open>r\<close> and \<open>w\<close>
  and adds no layer: the result is the same as wrapping \<open>c\<close> directly, and a plain
  connection wrapped any number of times has exactly one adaptor on it.
\<close>

theorem WrapConn_delegation:
  "Read (WrapConn c r w) = (case readerRead r of (res, r') \<Rightarrow> (res, WrapConn c r' w))
   \<and> Write (WrapConn c r w) b = (case writerWrite w b of (res, w') \<Rightarrow> (res, WrapConn c r w'))
   \<and> WriteTo (WrapConn c r w) dst
       = (case io_Copy dst r of (res, dst', r') \<Rightarrow> Some (res, WrapConn c r' w, dst'))
   \<and> ReadFrom (WrapConn c r w) src
       = (case io_Copy w src of (res, w', src') \<Rightarrow> Some (res, WrapConn c r w', src'))
   \<and> CloseRead (WrapConn c r w) = WrapConn (CloseRead c) r w
   \<and> CloseWrite (WrapConn c r w) = WrapConn (CloseWrite c) r w
   \<and> closeLog (CloseRead (WrapConn c r w)) = closeLog c @ [CloseReadCall]
   \<and> closeLog (CloseWrite (WrapConn c r w)) = closeLog c @ [CloseWriteCall]
   \<and> WrapConn (WrapConn c r1 w1) r2 w2 = WrapConn c r2 w2
   \<and> depth (WrapConn (WrapConn c r1 w1) r2 w2) = depth (WrapConn c r1 w1)
   \<and> depth (fold (\<lambda>(r', w') c'. WrapConn c' r' w') rws (WrapConn (NetConn n) r w)) = 1"
proof -
  have "depth (fold (\<lambda>(r', w') c'. WrapConn c' r' w') rws (WrapConn (NetConn n) r w)) = 1"
  proof (induction rws rule: rev_induct)
    case Nil
    show ?case by (simp add: WrapConn_cases)
  next
    case (snoc x xs)
    then show ?case by (cases x) (simp add: depth_WrapConn)
  qed
  moreover have "closeLog (CloseRead (WrapConn c r w)) = closeLog c @ [CloseReadCall]"
    "closeLog (CloseWrite (WrapConn c r w)) = closeLog c @ [CloseWriteCall]"
    by (cases c; simp add: WrapConn_cases)+
  ultimately show ?thesis
    by (cases c) (simp_all add: WrapConn_cases depth_WrapConn WrapConn_twice)
qed

section \<open>Ports and configuration reload: properties\<close>

subsection \<open>The maps built from the configuration\<close>

lemma buildPortMaps_Inr:
  "buildPortMaps e keys pc pcs = Inr (pc', pcs') \<Longrightarrow>
     (\<forall>p. pc' p = (if p \<in> Port ` set keys then Some 1 else pc p))
     \<and> dom pcs' = dom pcs \<union> Port ` set keys
     \<and> (\<forall>p. map Some (listOf (pcs' p))
            = map Some (listOf (pcs p)) @ map (entryOf e) [k \<leftarrow> keys. Port k = p])"
proof (induction keys arbitrary: pc pcs)
  case Nil
  then show ?case by simp
next
  case (Cons k keys)
  from Cons.prems obtain c where c: "NewCipher e (Cipher k) (Secret k) = Inr c"
    by (auto simp: Let_def split: sum.splits)
  let ?pc = "pc(Port k \<mapsto> 1)"
  let ?pcs = "pcs(Port k \<mapsto> listOf (pcs (Port k)) @ [MakeCipherEntry (ID k) c (Secret k)])"
  from Cons.prems c have rec: "buildPortMaps e keys ?pc ?pcs = Inr (pc', pcs')"
    by (simp add: Let_def listOf_def)
  note ih = Cons.IH [OF rec]
  have 1: "\<forall>p. pc' p = (if p \<in> Port ` set (k # keys) then Some 1 else pc p)"
    using ih by auto
  have 2: "dom pcs' = dom pcs \<union> Port ` set (k # keys)"
    using ih by auto
  have 3: "map Some (listOf (pcs' p))
            = map Some (listOf (pcs p)) @ map (entryOf e) [k' \<leftarrow> k # keys. Port k' = p]" for p
  proof (cases "p = Port k")
    case True
    then show ?thesis
      using ih by (simp add: listOf_def entryOf_def c)
  next
    case False
    then show ?thesis
      using ih by (simp add: listOf_def)
  qed
  from 1 2 3 show ?case by blast
qed



lemma countBound_distinct:
  "distinct ks \<Longrightarrow>
     countBound ks pc p = (if p \<in> set ks then Some (lookup0 pc p - 1) else pc p)"
  by (induction ks arbitrary: pc) (auto simp: lookup0_def)

lemma portChanges_count:
  assumes b: "buildPortMaps e (Keys config) Map.empty Map.empty = Inr (pc, pcs)"
    and v: "distinct ks" "set ks = dom (ports s)"
  shows "countBound ks pc p =
           (if p \<in> dom (ports s) then (if p \<in> configPorts config then Some 0 else Some (- 1))
            else if p \<in> configPorts config then Some 1 else None)"
proof -
  from buildPortMaps_Inr [OF b]
  have "pc p = (if p \<in> configPorts config then Some 1 else None)"
    by (simp add: configPorts_def)
  then show ?thesis
    using v by (simp add: countBound_distinct lookup0_def)
qed

subsection \<open>What starting and removing one port changes\<close>

lemma removePort_effect:
  "removePort e s p = (s', err) \<Longrightarrow>
     (\<forall>q. q \<noteq> p \<longrightarrow> ports s' q = ports s q) \<and> ports s' p = None
     \<and> (\<exists>evs. journal s' = journal s @ evs \<and> (\<forall>ev \<in> set evs. portOf ev = p))"
  by (auto simp: removePort_def Let_def split: option.splits)

lemma startPort_effect:
  "startPort e s p = (s', err) \<Longrightarrow>
     (\<forall>q. q \<noteq> p \<longrightarrow> ports s' q = ports s q)
     \<and> (err = None \<longrightarrow> ports s' p \<noteq> None)
     \<and> (err \<noteq> None \<longrightarrow> ports s' = ports s)
     \<and> (\<exists>evs. journal s' = journal s @ evs \<and> (\<forall>ev \<in> set evs. portOf ev = p))"
  by (auto simp: startPort_def Let_def split: sum.splits)

lemma removePort_absent:
  "ports s p = None \<Longrightarrow>
     removePort e s p = (s, Some (Errorf ''Port %v doesn't exist'' [ArgInt p]))"
  by (simp add: removePort_def)

lemma removePort_present:
  "ports s p = Some port \<Longrightarrow>
     fst (removePort e s p)
       = s\<lparr>ports := (ports s)(p := None), journal := journal s @ [StopTCP p, StopUDP p]\<rparr>
     \<and> snd (removePort e s p)
       = (case tcpService_Stop e (tcpService port) of
            Some tcpErr \<Rightarrow>
              Some (Errorf ''Failed to close listener on %v: %v'' [ArgInt p, ArgErr tcpErr])
          | None \<Rightarrow>
              (case udpService_Stop e (udpService port) of
                 Some udpErr \<Rightarrow>
                   Some (Errorf ''Failed to close packetConn on %v: %v''
                           [ArgInt p, ArgErr udpErr])
               | None \<Rightarrow> None))"
  by (simp add: removePort_def Let_def split: option.splits)

subsection \<open>The loops over the ports\<close>

lemma applyPortChanges_untouched:
  "applyPortChanges e pc ks s = (s', err) \<Longrightarrow> pc q \<noteq> Some (- 1) \<Longrightarrow> pc q \<noteq> Some 1 \<Longrightarrow>
     ports s' q = ports s q
     \<and> (\<exists>evs. journal s' = journal s @ evs \<and> (\<forall>ev \<in> set evs. portOf ev \<noteq> q))"
proof (induction ks arbitrary: s)
  case Nil
  then show ?case by simp
next
  case (Cons k ks)
  have step: "ports s' q = ports s q
     \<and> (\<exists>evs. journal s' = journal s @ evs \<and> (\<forall>ev \<in> set evs. portOf ev \<noteq> q))"
    if op: "ports s1 q = ports s q"
         "\<exists>evs. journal s1 = journal s @ evs \<and> (\<forall>ev \<in> set evs. portOf ev \<noteq> q)"
      and rest: "applyPortChanges e pc ks s1 = (s', err) \<or> s' = s1" for s1
  proof -
    from rest have "ports s' q = ports s1 q
       \<and> (\<exists>evs. journal s' = journal s1 @ evs \<and> (\<forall>ev \<in> set evs. portOf ev \<noteq> q))"
      using Cons.IH [of s1] Cons.prems(2,3) by auto
    with op show ?thesis
      by (metis (no_types, lifting) Un_iff append.assoc set_append)
  qed
  show ?case
  proof (cases "pc k")
    case None
    with Cons.prems show ?thesis
      using step [of s] by simp
  next
    case (Some count)
    consider (rm) "count = - 1" | (st) "count = 1" | (skip) "count \<noteq> - 1" "count \<noteq> 1"
      by blast
    then show ?thesis
    proof cases
      case rm
      with Some Cons.prems(2) have kq: "k \<noteq> q" by auto
      obtain s1 r where r: "removePort e s k = (s1, r)" by force
      from removePort_effect [OF r] kq
      have op: "ports s1 q = ports s q"
        "\<exists>evs. journal s1 = journal s @ evs \<and> (\<forall>ev \<in> set evs. portOf ev \<noteq> q)"
        by auto
      from Cons.prems(1) Some rm r
      have "applyPortChanges e pc ks s1 = (s', err) \<or> s' = s1"
        by (auto split: option.splits)
      with op show ?thesis by (rule step)
    next
      case st
      with Some Cons.prems(3) have kq: "k \<noteq> q" by auto
      obtain s1 r where r: "startPort e s k = (s1, r)" by force
      from startPort_effect [OF r] kq
      have op: "ports s1 q = ports s q"
        "\<exists>evs. journal s1 = journal s @ evs \<and> (\<forall>ev \<in> set evs. portOf ev \<noteq> q)"
        by auto
      from Cons.prems(1) Some st r
      have "applyPortChanges e pc ks s1 = (s', err) \<or> s' = s1"
        by (auto split: option.splits)
      with op show ?thesis by (rule step)
    next
      case skip
      with Some Cons.prems show ?thesis
        using step [of s] by simp
    qed
  qed
qed



lemma applyPortChanges_success:
  "applyPortChanges e pc ks s = (s', None) \<Longrightarrow>
     (q \<in> set ks \<and> pc q = Some (- 1) \<longrightarrow> ports s' q = None)
     \<and> (q \<in> set ks \<and> pc q = Some 1 \<longrightarrow> ports s' q \<noteq> None)
     \<and> (q \<notin> set ks \<longrightarrow> ports s' q = ports s q)"
proof (induction ks arbitrary: s)
  case Nil
  then show ?case by simp
next
  case (Cons k ks)
  show ?case
  proof (cases "pc k")
    case None
    with Cons.prems have "applyPortChanges e pc ks s = (s', None)" by simp
    from Cons.IH [OF this] None show ?thesis by auto
  next
    case (Some count)
    consider (rm) "count = - 1" | (st) "count = 1" | (skip) "count \<noteq> - 1" "count \<noteq> 1"
      by blast
    then show ?thesis
    proof cases
      case rm
      obtain s1 r where r: "removePort e s k = (s1, r)" by force
      from Cons.prems Some rm r have rest: "applyPortChanges e pc ks s1 = (s', None)"
        by (auto split: option.splits)
      from Cons.IH [OF rest] removePort_effect [OF r] Some rm show ?thesis
        by auto
    next
      case st
      obtain s1 r where r: "startPort e s k = (s1, r)" by force
      from Cons.prems Some st r have rest: "applyPortChanges e pc ks s1 = (s', None)"
        and ok: "r = None"
        by (auto split: option.splits)
      from Cons.IH [OF rest] startPort_effect [OF r] Some st ok show ?thesis
        by auto
    next
      case skip
      with Cons.prems Some have "applyPortChanges e pc ks s = (s', None)" by simp
      from Cons.IH [OF this] Some skip show ?thesis by auto
    qed
  qed
qed


lemma updateCiphers_total:
  "(\<forall>p \<in> set ks. pcs p \<noteq> None \<longrightarrow> ports s p \<noteq> None) \<Longrightarrow>
     \<exists>s''. updateCiphers pcs ks s = Inr s'' \<and> journal s'' = journal s
       \<and> (\<forall>q. ports s'' q =
             (if q \<in> set ks \<and> pcs q \<noteq> None
              then map_option (\<lambda>port. port\<lparr>cipherList := listOf (pcs q)\<rparr>) (ports s q)
              else ports s q))"
proof (induction ks arbitrary: s)
  case Nil
  then show ?case by simp
next
  case (Cons k ks)
  show ?case
  proof (cases "pcs k")
    case None
    with Cons.prems have "\<forall>p \<in> set ks. pcs p \<noteq> None \<longrightarrow> ports s p \<noteq> None" by simp
    from Cons.IH [OF this] None show ?thesis by auto
  next
    case (Some cl)
    with Cons.prems obtain port where port: "ports s k = Some port" by auto
    let ?s1 = "s\<lparr>ports := (ports s)(k \<mapsto> port\<lparr>cipherList := cl\<rparr>)\<rparr>"
    from Cons.prems have "\<forall>p \<in> set ks. pcs p \<noteq> None \<longrightarrow> ports ?s1 p \<noteq> None" by simp
    from Cons.IH [OF this] obtain s'' where
      s'': "updateCiphers pcs ks ?s1 = Inr s''" "journal s'' = journal ?s1"
        "\<forall>q. ports s'' q =
             (if q \<in> set ks \<and> pcs q \<noteq> None
              then map_option (\<lambda>port. port\<lparr>cipherList := listOf (pcs q)\<rparr>) (ports ?s1 q)
              else ports ?s1 q)"
      by blast
    have "updateCiphers pcs (k # ks) s = Inr s''"
      using Some port s''(1) by simp
    moreover have "journal s'' = journal s"
      using s''(2) by simp
    moreover have "ports s'' q =
             (if q \<in> set (k # ks) \<and> pcs q \<noteq> None
              then map_option (\<lambda>port. port\<lparr>cipherList := listOf (pcs q)\<rparr>) (ports s q)
              else ports s q)" for q
      using s''(3) Some port by (auto simp: listOf_def)
    ultimately show ?thesis by blast
  qed
qed



subsection \<open>The three ways a reload ends\<close>

text \<open>
  With orders that list each map's keys once, \<^verbatim>\<open>loadConfig\<close> never panics. It returns
  the error of the first key whose cipher cannot be built, or the error of the first port
  whose removal or start fails, or \<^verbatim>\<open>nil\<close>; in the last case the bound ports are the
  ports of the configuration and each has the cipher entries built for it.
\<close>

lemma loadConfig_cases:
  assumes v: "validRanges rg s config"
  obtains
    (cipher) err where
      "buildPortMaps e (Keys config) Map.empty Map.empty = Inl err"
      "loadConfig e rg s config = Inr (s, Some err)"
  | (port) pc pcs s1 err where
      "buildPortMaps e (Keys config) Map.empty Map.empty = Inr (pc, pcs)"
      "applyPortChanges e (countBound (range_ports rg) pc) (range_portChanges rg) s
         = (s1, Some err)"
      "loadConfig e rg s config = Inr (s1, Some err)"
  | (ok) pc pcs s1 s2 where
      "buildPortMaps e (Keys config) Map.empty Map.empty = Inr (pc, pcs)"
      "applyPortChanges e (countBound (range_ports rg) pc) (range_portChanges rg) s
         = (s1, None)"
      "loadConfig e rg s config = Inr (s2, None)"
      "dom (ports s1) = configPorts config"
      "journal s2 = journal s1"
      "\<forall>q. ports s2 q = map_option (\<lambda>port. port\<lparr>cipherList := listOf (pcs q)\<rparr>) (ports s1 q)"
proof (cases "buildPortMaps e (Keys config) Map.empty Map.empty")
  case (Inl err)
  then have "loadConfig e rg s config = Inr (s, Some err)"
    by (simp add: loadConfig_def)
  with Inl show ?thesis by (rule cipher)
next
  case (Inr maps)
  obtain pc pcs where maps: "maps = (pc, pcs)" by (cases maps)
  with Inr have b: "buildPortMaps e (Keys config) Map.empty Map.empty = Inr (pc, pcs)" by simp
  let ?pc = "countBound (range_ports rg) pc"
  obtain s1 r where a: "applyPortChanges e ?pc (range_portChanges rg) s = (s1, r)" by force
  show ?thesis
  proof (cases r)
    case (Some err)
    with a b have "loadConfig e rg s config = Inr (s1, Some err)"
      by (simp add: loadConfig_def)
    with b a Some show ?thesis by (auto intro: port)
  next
    case None
    from v have vp: "distinct (range_ports rg)" "set (range_ports rg) = dom (ports s)"
      and vc: "set (range_portChanges rg) = configPorts config \<union> dom (ports s)"
      and vu: "set (range_portCiphers rg) = configPorts config"
      by (simp_all add: validRanges_def)
    note cnt = portChanges_count [OF b vp]
    from a None have a': "applyPortChanges e ?pc (range_portChanges rg) s = (s1, None)" by simp
    have d: "dom (ports s1) = configPorts config"
    proof (rule set_eqI)
      fix q
      show "q \<in> dom (ports s1) \<longleftrightarrow> q \<in> configPorts config"
      proof (cases "q \<in> dom (ports s)")
        case True
        show ?thesis
        proof (cases "q \<in> configPorts config")
          case True
          with \<open>q \<in> dom (ports s)\<close> cnt [of q] have "?pc q = Some 0" by simp
          then have "ports s1 q = ports s q"
            using applyPortChanges_untouched [OF a', of q] by simp
          with True \<open>q \<in> dom (ports s)\<close> show ?thesis by auto
        next
          case False
          with \<open>q \<in> dom (ports s)\<close> cnt [of q] vc have "?pc q = Some (- 1)"
            "q \<in> set (range_portChanges rg)" by simp_all
          then have "ports s1 q = None"
            using applyPortChanges_success [OF a', of q] by simp
          with False show ?thesis by auto
        qed
      next
        case False
        show ?thesis
        proof (cases "q \<in> configPorts config")
          case True
          with False cnt [of q] vc have "?pc q = Some 1" "q \<in> set (range_portChanges rg)"
            by simp_all
          then have "ports s1 q \<noteq> None"
            using applyPortChanges_success [OF a', of q] by simp
          with True show ?thesis by auto
        next
          case False
          with \<open>q \<notin> dom (ports s)\<close> vc have "q \<notin> set (range_portChanges rg)" by simp
          then have "ports s1 q = ports s q"
            using applyPortChanges_success [OF a', of q] by simp
          with False \<open>q \<notin> dom (ports s)\<close> show ?thesis by auto
        qed
      qed
    qed
    from buildPortMaps_Inr [OF b] have dp: "dom pcs = configPorts config"
      by (simp add: configPorts_def)
    have "\<forall>p \<in> set (range_portCiphers rg). pcs p \<noteq> None \<longrightarrow> ports s1 p \<noteq> None"
      using d vu by auto
    from updateCiphers_total [OF this] obtain s2 where
      u: "updateCiphers pcs (range_portCiphers rg) s1 = Inr s2" "journal s2 = journal s1"
        "\<forall>q. ports s2 q =
             (if q \<in> set (range_portCiphers rg) \<and> pcs q \<noteq> None
              then map_option (\<lambda>port. port\<lparr>cipherList := listOf (pcs q)\<rparr>) (ports s1 q)
              else ports s1 q)"
      by blast
    have "ports s2 q = map_option (\<lambda>port. port\<lparr>cipherList := listOf (pcs q)\<rparr>) (ports s1 q)"
      for q
    proof (cases "q \<in> configPorts config")
      case True
      with u(3) vu dp show ?thesis by auto
    next
      case False
      with d have "ports s1 q = None" by auto
      with u(3) show ?thesis by simp
    qed
    moreover from a' b u(1) have "loadConfig e rg s config = Inr (s2, None)"
      by (simp add: loadConfig_def)
    ultimately show ?thesis
      using b a' d u(2) by (auto intro: ok)
  qed
qed



lemma loadConfig_never_panics:
  assumes "validRanges rg s config"
  shows "\<exists>s' err. loadConfig e rg s config = Inr (s', err)"
  using assms by (cases rule: loadConfig_cases [where e = e]) simp_all


subsection \<open>Ports that stay\<close>



text \<open>The same run, evaluated.\<close>

lemma rotated_run:
  "\<exists>s'. loadConfig exampleEnv rotatedRanges serving80 rotated = Inr (s', None)
     \<and> journal s' = [ListenTCP 82, ListenUDP 82, ServeTCP 82, ServeUDP 82]
     \<and> ports s' 80 = Some \<lparr>tcpService = 80, udpService = 80,
          cipherList = [\<lparr>entryID = ''A'', entryCipher = 6, entrySecret = ''s3cret''\<rparr>]\<rparr>"
  by (simp add: loadConfig_def rotatedRanges_def serving80_def rotated_def accessKey_def
        exampleEnv_def lookup0_def startPort_def removePort_def MakeCipherEntry_def bound_def)

subsection \<open>A reload that fails\<close>



subsection \<open>Removing a port\<close>

text \<open>
  Claim C7, as stated: when both shutdowns fail, the error \<^verbatim>\<open>removePort\<close> returns
  reflects both failures. It does not: with both services of port 90 failing to stop,
  the error is built from the TCP error alone, and the UDP error is not part of it.
\<close>

theorem removePort_both_fail_counterexample:
  "ports serving90 90 = Some (bound 90)
   \<and> tcpService_Stop exampleEnv (tcpService (bound 90)) = Some (Ext ''tcp close failed'')
   \<and> udpService_Stop exampleEnv (udpService (bound 90)) = Some (Ext ''udp close failed'')
   \<and> snd (removePort exampleEnv serving90 90)
       = Some (Errorf ''Failed to close listener on %v: %v''
                 [ArgInt 90, ArgErr (Ext ''tcp close failed'')])
   \<and> causes (Errorf ''Failed to close listener on %v: %v''
                 [ArgInt 90, ArgErr (Ext ''tcp close failed'')]) = [Ext ''tcp close failed'']
   \<and> Ext ''udp close failed'' \<notin> set (causes (Errorf ''Failed to close listener on %v: %v''
                 [ArgInt 90, ArgErr (Ext ''tcp close failed'')]))"
  by (simp add: removePort_def serving90_def exampleEnv_def bound_def)

text \<open>
  Claim C7, amended: for a port that is registered, \<^verbatim>\<open>removePort\<close> calls \<^verbatim>\<open>Stop\<close> on
  the TCP service and then on the UDP service, removes the binding, and returns an error
  exactly when one of the two calls failed. The error reports the TCP failure when the
  TCP service failed to stop, whether or not the UDP service failed too, and the UDP
  failure otherwise.
\<close>

theorem removePort_registered:
  assumes "ports s p = Some port"
  shows "journal (fst (removePort e s p)) = journal s @ [StopTCP p, StopUDP p]
     \<and> ports (fst (removePort e s p)) = (ports s)(p := None)
     \<and> (snd (removePort e s p) \<noteq> None
          \<longleftrightarrow> tcpService_Stop e (tcpService port) \<noteq> None
              \<or> udpService_Stop e (udpService port) \<noteq> None)
     \<and> (case tcpService_Stop e (tcpService port) of
          Some tcpErr \<Rightarrow>
            snd (removePort e s p)
              = Some (Errorf ''Failed to close listener on %v: %v'' [ArgInt p, ArgErr tcpErr])
        | None \<Rightarrow>
            (case udpService_Stop e (udpService port) of
               Some udpErr \<Rightarrow>
                 snd (removePort e s p)
                   = Some (Errorf ''Failed to close packetConn on %v: %v''
                             [ArgInt p, ArgErr udpErr])
             | None \<Rightarrow> snd (removePort e s p) = None))"
  using removePort_present [OF assms, of e]
  by (auto split: option.splits)

theorem removePort_registered_witness:
  "ports serving90 90 = Some (bound 90)
   \<and> journal (fst (removePort exampleEnv serving90 90)) = [StopTCP 90, StopUDP 90]
   \<and> ports (fst (removePort exampleEnv serving90 90)) 90 = None
   \<and> snd (removePort exampleEnv serving90 90)
       = Some (Errorf ''Failed to close listener on %v: %v''
                 [ArgInt 90, ArgErr (Ext ''tcp close failed'')])"
proof -
  have h: "ports serving90 90 = Some (bound 90)"
    by (simp add: serving90_def)
  show ?thesis
    using h removePort_registered [OF h, of exampleEnv]
    by (simp add: serving90_def exampleEnv_def bound_def)
qed

text \<open>
  Claim C10. For a port that is not registered, \<^verbatim>\<open>removePort\<close> returns an error and
  leaves the server as it was. For a port that is registered, the binding is gone
  afterwards whatever \<^verbatim>\<open>removePort\<close> returns, and no other binding has changed.
\<close>

theorem removePort_deletes_binding:
  "(ports s p = None \<longrightarrow>
      removePort e s p = (s, Some (Errorf ''Port %v doesn't exist'' [ArgInt p])))
   \<and> (ports s p \<noteq> None \<longrightarrow>
        ports (fst (removePort e s p)) p = None
        \<and> (\<forall>q. q \<noteq> p \<longrightarrow> ports (fst (removePort e s p)) q = ports s q))"
  using removePort_absent [of s p e] removePort_present [of s p _ e]
  by auto

theorem removePort_deletes_binding_witness:
  "ports serving90 7 = None
   \<and> removePort exampleEnv serving90 7
       = (serving90, Some (Errorf ''Port %v doesn't exist'' [ArgInt 7]))
   \<and> ports serving90 90 \<noteq> None
   \<and> snd (removePort exampleEnv serving90 90) \<noteq> None
   \<and> ports (fst (removePort exampleEnv serving90 90)) 90 = None"
proof -
  have a: "ports serving90 7 = None" and b: "ports serving90 90 \<noteq> None"
    by (simp_all add: serving90_def)
  have c: "snd (removePort exampleEnv serving90 90) \<noteq> None"
    by (simp add: removePort_def serving90_def exampleEnv_def bound_def)
  show ?thesis
    using a b c removePort_deletes_binding [of serving90 7 exampleEnv]
      removePort_deletes_binding [of serving90 90 exampleEnv]
    by simp
qed

end
